theory Spec2Isabelle
  imports Main "HOL-Library.Sublist" "HOL-Library.Multiset"
begin

section \<open>JavaScript strings\<close>

text \<open>
  A JavaScript string is a sequence of UTF-16 code units. It is modelled as a
  \<^typ>\<open>string\<close>: the character with code \<open>n\<close> stands for the code unit \<open>n\<close>, so the
  model covers the strings whose code units lie in U+0000..U+00FF.
\<close>

definition isWhiteSpace :: "char \<Rightarrow> bool" where
  \<comment> \<open>The code units below 256 that \<open>String.prototype.trim\<close> removes: TAB, LF, VT, FF, CR,
      SPACE and NO-BREAK SPACE.\<close>
  "isWhiteSpace c =
     (let n = (of_char c :: nat) in (9 \<le> n \<and> n \<le> 13) \<or> n = 32 \<or> n = 160)"

definition trim :: "string \<Rightarrow> string" where
  "trim s = rev (dropWhile isWhiteSpace (rev (dropWhile isWhiteSpace s)))"

definition startsWith :: "string \<Rightarrow> string \<Rightarrow> bool" where
  "startsWith s t = prefix t s"

definition includes_js :: "string \<Rightarrow> string \<Rightarrow> bool" where
  \<comment> \<open>\<open>s.includes(t)\<close>: \<open>t\<close> occurs in \<open>s\<close> as a contiguous run.\<close>
  "includes_js s t = sublist t s"

fun replace_first :: "string \<Rightarrow> string \<Rightarrow> string \<Rightarrow> string" where
  \<comment> \<open>\<open>s.replace(pat, rep)\<close> with a string pattern: only the first occurrence is replaced.\<close>
  "replace_first pat rep [] = (if pat = [] then rep else [])"
| "replace_first pat rep (c # cs) =
     (if prefix pat (c # cs) then rep @ drop (length pat) (c # cs)
      else c # replace_first pat rep cs)"

fun split_on :: "(char \<Rightarrow> bool) \<Rightarrow> string \<Rightarrow> string list" where
  \<comment> \<open>\<open>s.split(sep)\<close> where \<open>sep\<close> matches exactly one code unit (a one-character string
      or a character class): the pieces between the separators, empty pieces included.\<close>
  "split_on P [] = [[]]"
| "split_on P (c # cs) =
     (if P c then [] # split_on P cs
      else (case split_on P cs of
              [] \<Rightarrow> [[c]]
            | piece # pieces \<Rightarrow> (c # piece) # pieces))"

definition digit_char :: "nat \<Rightarrow> char" where
  "digit_char d = ''0123456789'' ! d"

fun decimal_digits :: "nat \<Rightarrow> string" where
  \<comment> \<open>The decimal numeral of a natural number, as a template literal prints an index.\<close>
  "decimal_digits n =
     (if n < 10 then [digit_char n]
      else decimal_digits (n div 10) @ [digit_char (n mod 10)])"

declare decimal_digits.simps [simp del]

definition number_string :: "int \<Rightarrow> string" where
  \<comment> \<open>\<open>String(n)\<close> for an integral number \<open>n\<close> of absolute value at most \<open>2 ^ 53\<close>, where it
      is the plain decimal numeral. Beyond that \<open>String\<close> rounds the digits or prints an
      exponent; the result is left unspecified there.\<close>
  "number_string i =
     (if \<bar>i\<bar> \<le> 9007199254740992 then
        (if 0 \<le> i then decimal_digits (nat i) else CHR ''-'' # decimal_digits (nat (- i)))
      else undefined)"

section \<open>Decoded JSON values\<close>

text \<open>
  The value handed to the tree builder is what \<open>JSON.parse\<close> returns, or \<open>undefined\<close>.
  An object is the list of its own keys with their values, in the order of
  \<open>Object.keys\<close>; a JavaScript object holds each key once. A number is modelled by an
  integer: the model covers the integral numbers. Only the label of a number depends
  on how it prints, and the label is specified for the numbers of absolute value at
  most \<open>2 ^ 53\<close>.
\<close>

datatype json =
    JNull
  | JUndefined
  | JBool bool
  | JNum int
  | JStr string
  | JArr "json list"
  | JObj "(string \<times> json) list"

fun String_js :: "json \<Rightarrow> string" where
  \<comment> \<open>\<open>String(data)\<close> on the values that reach it, those with \<open>typeof data !== 'object'\<close>
      (and on \<open>null\<close>); it is left unspecified on arrays and objects.\<close>
  "String_js (JBool b) = (if b then ''true'' else ''false'')"
| "String_js (JNum i) = number_string i"
| "String_js (JStr s) = s"
| "String_js JUndefined = ''undefined''"
| "String_js JNull = ''null''"

section \<open>The tree builder\<close>

datatype JsonNodeType = Object | Array | Primitive

datatype TreeNode =
  TreeNode (id_t: string) (path: string) (label: string) (value_t: json)
           (type_t: JsonNodeType) (children: "TreeNode list")

definition last_segment :: "string \<Rightarrow> string" where
  \<comment> \<open>\<open>parentPath.split('.').pop() || parentPath\<close>: the empty string is falsy.\<close>
  "last_segment parentPath =
     (let seg = last (split_on (\<lambda>c. c = CHR ''.'') parentPath)
      in if seg = [] then parentPath else seg)"

fun jsonToTree :: "json \<Rightarrow> string \<Rightarrow> TreeNode list"
  and array_children :: "json list \<Rightarrow> nat \<Rightarrow> string \<Rightarrow> TreeNode list"
  and object_children :: "(string \<times> json) list \<Rightarrow> string \<Rightarrow> TreeNode list"
where
  "jsonToTree JNull parentPath =
     [TreeNode parentPath parentPath
        ((if parentPath = ''$'' then ''root'' else last_segment parentPath) @ '': null'')
        JNull Primitive []]"
| "jsonToTree JUndefined parentPath =
     [TreeNode parentPath parentPath
        ((if parentPath = ''$'' then ''root'' else last_segment parentPath) @ '': null'')
        JNull Primitive []]"
| "jsonToTree (JBool b) parentPath =
     [TreeNode parentPath parentPath
        (if parentPath = ''$'' then ''root: '' @ String_js (JBool b)
         else last_segment parentPath @ '': '' @ String_js (JBool b))
        (JBool b) Primitive []]"
| "jsonToTree (JNum i) parentPath =
     [TreeNode parentPath parentPath
        (if parentPath = ''$'' then ''root: '' @ String_js (JNum i)
         else last_segment parentPath @ '': '' @ String_js (JNum i))
        (JNum i) Primitive []]"
| "jsonToTree (JStr s) parentPath =
     [TreeNode parentPath parentPath
        (if parentPath = ''$'' then ''root: '' @ String_js (JStr s)
         else last_segment parentPath @ '': '' @ String_js (JStr s))
        (JStr s) Primitive []]"
| "jsonToTree (JArr items) parentPath =
     [TreeNode parentPath parentPath
        (if parentPath = ''$'' then ''root: [Array]''
         else last_segment parentPath @ '': [Array('' @ decimal_digits (length items) @ '')]'')
        (JArr items) Array
        (array_children items 0 parentPath)]"
| "jsonToTree (JObj members) parentPath =
     [TreeNode parentPath parentPath
        (if parentPath = ''$'' then ''root: {Object}''
         else last_segment parentPath @ '': {Object}'')
        (JObj members) Object
        (object_children members parentPath)]"
| "array_children [] index parentPath = []"
| "array_children (item # rest) index parentPath =
     jsonToTree item (parentPath @ ''['' @ decimal_digits index @ '']'')
       @ array_children rest (Suc index) parentPath"
| "object_children [] parentPath = []"
| "object_children ((key, v) # rest) parentPath =
     jsonToTree v (if parentPath = ''$'' then ''$.'' @ key else parentPath @ ''.'' @ key)
       @ object_children rest parentPath"

section \<open>The layout flattener\<close>

text \<open>
  The render-ready node and edge of the graph widget, with the fields the flattener
  fills in. Coordinates are JavaScript numbers; the model takes integral origins (the
  defaults are 400 and 50), and every coordinate computed from them is an integer,
  since the spacing is even. A field whose name is taken in HOL, or shared by two
  records, carries a suffix: \<open>_t\<close> on a tree node, \<open>_n\<close> on a node, \<open>_d\<close> on its data, \<open>_p\<close>
  on its position, \<open>_e\<close> on an edge, \<open>_q\<close> on a queue item.
\<close>

record Position =
  x_p :: int
  y_p :: int

record NodeData =
  label_d :: string
  path_d :: "string option"
  value_d :: json
  nodeType :: JsonNodeType

record NodeStyle =
  backgroundColor :: string
  color :: string
  border :: string
  borderColor :: string
  borderRadius :: string
  padding :: string
  fontSize :: string
  fontWeight :: string
  minWidth :: string
  textAlign :: string

record Node =
  id_n :: string
  type_n :: string
  position :: Position
  data :: NodeData
  style :: NodeStyle

record EdgeStyle =
  stroke :: string
  strokeWidth :: int

record Edge =
  id_e :: string
  source :: string
  target :: string
  type_e :: string
  animated :: bool
  style_e :: EdgeStyle

record QueueItem =
  treeNode :: TreeNode
  parentNode :: "Node option"
  x_q :: int
  y_q :: int

record FlowState =
  nodes :: "Node list"
  edges :: "Edge list"
  queue :: "QueueItem list"
  levelYPositions :: "nat \<Rightarrow> int option"

fun getNodeColor :: "JsonNodeType \<Rightarrow> string" where
  \<comment> \<open>The \<open>default\<close> branch of the \<open>switch\<close> is not reached by any of the three kinds.\<close>
  "getNodeColor Object = ''#6366f1''"
| "getNodeColor Array = ''#22c55e''"
| "getNodeColor Primitive = ''#f59e0b''"

fun getBorderColor :: "JsonNodeType \<Rightarrow> string" where
  "getBorderColor Object = ''#4f46e5''"
| "getBorderColor Array = ''#16a34a''"
| "getBorderColor Primitive = ''#d97706''"

definition isDelimiter :: "char \<Rightarrow> bool" where
  \<comment> \<open>The character class \<open>[\.\[\]]\<close>.\<close>
  "isDelimiter c = (c = CHR ''.'' \<or> c = CHR ''['' \<or> c = CHR '']'')"

definition level_of :: "string \<Rightarrow> nat" where
  \<comment> \<open>\<open>path.split(/[\.\[\]]/).length - 1\<close>\<close>
  "level_of p = length (split_on isDelimiter p) - 1"

definition flowNode_of :: "TreeNode \<Rightarrow> int \<Rightarrow> int \<Rightarrow> Node" where
  "flowNode_of t x y =
     \<lparr> id_n = id_t t,
       type_n = ''jsonNode'',
       position = \<lparr> x_p = x, y_p = y \<rparr>,
       data = \<lparr> label_d = label t, path_d = Some (path t), value_d = value_t t,
                nodeType = type_t t \<rparr>,
       style = \<lparr> backgroundColor = getNodeColor (type_t t),
                 color = ''#fff'',
                 border = ''2px solid'',
                 borderColor = getBorderColor (type_t t),
                 borderRadius = ''8px'',
                 padding = ''10px'',
                 fontSize = ''14px'',
                 fontWeight = ''500'',
                 minWidth = ''150px'',
                 textAlign = ''center'' \<rparr> \<rparr>"

definition edge_of :: "Node \<Rightarrow> TreeNode \<Rightarrow> Edge" where
  "edge_of parent t =
     \<lparr> id_e = id_n parent @ ''-'' @ id_t t,
       source = id_n parent,
       target = id_t t,
       type_e = ''smoothstep'',
       animated = True,
       style_e = \<lparr> stroke = ''#888'', strokeWidth = 2 \<rparr> \<rparr>"

definition childY_of :: "(nat \<Rightarrow> int option) \<Rightarrow> nat \<Rightarrow> int \<Rightarrow> int" where
  \<comment> \<open>\<open>levelYPositions[level + 1] || y + 320\<close>: an absent entry and the number 0 are falsy.\<close>
  "childY_of levelY level y =
     (case levelY (level + 1) of
        None \<Rightarrow> y + 320
      | Some v \<Rightarrow> if v = 0 then y + 320 else v)"

fun enqueue_children :: "TreeNode list \<Rightarrow> nat \<Rightarrow> Node \<Rightarrow> int \<Rightarrow> int \<Rightarrow> QueueItem list" where
  \<comment> \<open>The \<open>forEach\<close> over the children, from the given index on: the items it pushes.\<close>
  "enqueue_children [] index flowNode startChildX childY = []"
| "enqueue_children (child # rest) index flowNode startChildX childY =
     \<lparr> treeNode = child, parentNode = Some flowNode,
       x_q = startChildX + int index * 320, y_q = childY \<rparr>
       # enqueue_children rest (Suc index) flowNode startChildX childY"

definition flow_body :: "QueueItem \<Rightarrow> FlowState \<Rightarrow> FlowState" where
  \<comment> \<open>One pass of the \<open>while\<close> body, for the item just taken off the queue.\<close>
  "flow_body item st =
     (let t = treeNode item; x = x_q item; y = y_q item;
          level = level_of (path t);
          flowNode = flowNode_of t x y;
          st1 = st\<lparr> nodes := nodes st @ [flowNode] \<rparr>;
          st2 = (case parentNode item of
                   None \<Rightarrow> st1
                 | Some parent \<Rightarrow> st1\<lparr> edges := edges st1 @ [edge_of parent t] \<rparr>)
      in if length (children t) > 0 then
           let childCount = length (children t);
               childY = childY_of (levelYPositions st2) level y;
               spacing = max 360 (int childCount * 320);
               startChildX = x - spacing div 2 + 160
           in st2\<lparr> levelYPositions := (levelYPositions st2)(level + 1 \<mapsto> childY + 280),
                    queue := queue st2 @ enqueue_children (children t) 0 flowNode startChildX childY \<rparr>
         else st2)"

fun tree_size :: "TreeNode \<Rightarrow> nat" where
  "tree_size (TreeNode i p l v ty cs) = Suc (sum_list (map tree_size cs))"

definition queue_size :: "QueueItem list \<Rightarrow> nat" where
  "queue_size q = sum_list (map (\<lambda>item. tree_size (treeNode item)) q)"

lemma queue_size_enqueue_children:
  "queue_size (enqueue_children cs index flowNode sx cy) = sum_list (map tree_size cs)"
  by (induction cs arbitrary: index) (simp_all add: queue_size_def)

lemma queue_size_append: "queue_size (q @ r) = queue_size q + queue_size r"
  by (simp add: queue_size_def)

lemma queue_flow_body:
  "queue (flow_body item st) =
     queue st @ enqueue_children (children (treeNode item)) 0
       (flowNode_of (treeNode item) (x_q item) (y_q item))
       (x_q item - max 360 (int (length (children (treeNode item))) * 320) div 2 + 160)
       (childY_of (levelYPositions st) (level_of (path (treeNode item))) (y_q item))"
  by (cases "children (treeNode item)")
     (simp_all add: flow_body_def Let_def split: option.split)

function flow_loop :: "FlowState \<Rightarrow> FlowState" where
  \<comment> \<open>\<open>while (queue.length > 0) { const item = queue.shift()!; ... }\<close>\<close>
  "flow_loop st =
     (case queue st of
        [] \<Rightarrow> st
      | item # rest \<Rightarrow> flow_loop (flow_body item (st\<lparr> queue := rest \<rparr>)))"
  by pat_completeness auto
termination
proof (relation "measure (\<lambda>st. queue_size (queue st))")
  show "wf (measure (\<lambda>st. queue_size (queue st)))" by simp
next
  fix st :: FlowState and item rest
  assume q: "queue st = item # rest"
  obtain i p l v ty cs where t: "treeNode item = TreeNode i p l v ty cs"
    by (cases "treeNode item")
  have "queue_size (queue (flow_body item (st\<lparr> queue := rest \<rparr>)))
          = queue_size rest + sum_list (map tree_size cs)"
    by (simp add: queue_flow_body t queue_size_append queue_size_enqueue_children)
  moreover have "queue_size (queue st) = Suc (sum_list (map tree_size cs)) + queue_size rest"
    by (simp add: q t queue_size_def)
  ultimately show "(flow_body item (st\<lparr> queue := rest \<rparr>), st)
                     \<in> measure (\<lambda>st. queue_size (queue st))"
    by simp
qed

declare flow_loop.simps [simp del]

definition treeToFlow :: "TreeNode list \<Rightarrow> int \<Rightarrow> int \<Rightarrow> Node list \<times> Edge list" where
  \<comment> \<open>Returns the pair \<open>(nodes, edges)\<close> of the object \<open>{ nodes, edges }\<close>.\<close>
  "treeToFlow treeNodes startX startY =
     (if length treeNodes = 0 then ([], [])
      else
        let root = treeNodes ! 0;
            st = flow_loop
                   \<lparr> nodes = [], edges = [],
                     queue = [\<lparr> treeNode = root, parentNode = None,
                                x_q = startX, y_q = startY \<rparr>],
                     levelYPositions = Map.empty(0 \<mapsto> startY) \<rparr>
        in (nodes st, edges st))"

section \<open>The path matcher\<close>

definition searchPattern_of :: "string \<Rightarrow> string" where
  "searchPattern_of searchPath =
     (let normalizedSearch = trim searchPath
      in if startsWith normalizedSearch ''$'' then normalizedSearch
         else ''$.'' @ normalizedSearch)"

definition nodePath_of :: "Node \<Rightarrow> string" where
  \<comment> \<open>\<open>node.data.path || ''\<close>\<close>
  "nodePath_of node = (case path_d (data node) of None \<Rightarrow> [] | Some p \<Rightarrow> p)"

definition exact_branch :: "string \<Rightarrow> Node \<Rightarrow> bool" where
  \<comment> \<open>The condition of the \<open>if\<close>: \<open>nodePath === searchPattern\<close>.\<close>
  "exact_branch searchPattern node = (nodePath_of node = searchPattern)"

definition fallback_branch :: "string \<Rightarrow> Node \<Rightarrow> bool" where
  \<comment> \<open>The condition of the \<open>else if\<close>.\<close>
  "fallback_branch searchPattern node =
     (includes_js (nodePath_of node) (replace_first ''$.'' [] searchPattern)
      \<or> nodePath_of node = searchPattern
      \<or> includes_js searchPattern (nodePath_of node))"

definition search_visit :: "string \<Rightarrow> string list \<Rightarrow> Node \<Rightarrow> string list" where
  \<comment> \<open>The callback of \<open>nodes.forEach\<close>, on the list \<open>matchingNodeIds\<close> collected so far.\<close>
  "search_visit searchPattern matchingNodeIds node =
     (if exact_branch searchPattern node then matchingNodeIds @ [id_n node]
      else if fallback_branch searchPattern node then matchingNodeIds @ [id_n node]
      else matchingNodeIds)"

definition searchNodes :: "Node list \<Rightarrow> string \<Rightarrow> string list" where
  "searchNodes ns searchPath =
     (if trim searchPath = [] then []
      else foldl (search_visit (searchPattern_of searchPath)) [] ns)"

fun isIdentStart :: "char \<Rightarrow> bool" where
  "isIdentStart c =
     (let n = (of_char c :: nat)
      in (97 \<le> n \<and> n \<le> 122) \<or> (65 \<le> n \<and> n \<le> 90) \<or> c = CHR ''_'')"

fun isDigit :: "char \<Rightarrow> bool" where
  "isDigit c = (let n = (of_char c :: nat) in 48 \<le> n \<and> n \<le> 57)"

fun isIdentChar :: "char \<Rightarrow> bool" where
  "isIdentChar c = (isIdentStart c \<or> isDigit c)"

function match_segments :: "string \<Rightarrow> bool" where
  \<comment> \<open>\<open>(\.[a-zA-Z_][a-zA-Z0-9_]*|\[[0-9]+\])*$\<close> on the rest of the input. Taking the
      longest identifier or number loses nothing: the character after a segment is
      \<open>.\<close> or \<open>[\<close> or the end, none of which continues an identifier or a number.\<close>
  "match_segments [] = True"
| "match_segments (c # cs) =
     (if c = CHR ''.'' then
        (case cs of
           [] \<Rightarrow> False
         | d # ds \<Rightarrow> isIdentStart d \<and> match_segments (dropWhile isIdentChar ds))
      else if c = CHR ''['' then
        (takeWhile isDigit cs \<noteq> [] \<and>
         (case dropWhile isDigit cs of
            [] \<Rightarrow> False
          | d # ds \<Rightarrow> d = CHR '']'' \<and> match_segments ds))
      else False)"
  by pat_completeness auto
termination
proof (relation "measure length")
  show "wf (measure length)" by simp
next
  fix c d :: char and cs ds :: string
  assume "cs = d # ds"
  then show "(dropWhile isIdentChar ds, c # cs) \<in> measure length"
    using length_dropWhile_le [of isIdentChar ds] by simp
next
  fix c d :: char and cs ds :: string
  assume "dropWhile isDigit cs = d # ds"
  then have "length ds < length cs"
    using length_dropWhile_le [of isDigit cs] by simp
  then show "(ds, c # cs) \<in> measure length" by simp
qed

definition pathPattern_test :: "string \<Rightarrow> bool" where
  \<comment> \<open>\<open>/^(\$?)(\.[a-zA-Z_][a-zA-Z0-9_]*|\[[0-9]+\])*$/.test(path)\<close>\<close>
  "pathPattern_test p =
     (case p of
        [] \<Rightarrow> True
      | c # cs \<Rightarrow> if c = CHR ''$'' then match_segments cs else match_segments (c # cs))"

definition isValidJsonPath :: "string \<Rightarrow> bool" where
  "isValidJsonPath p =
     (if trim p = [] then False
      else pathPattern_test p \<or> trim p \<noteq> [])"


section \<open>Listings of a tree\<close>

text \<open>
  The nodes of a tree in preorder, and the two breadth-first listings the flattener is
  compared with: the one a work queue produces, and the level-by-level one.
\<close>

fun tree_nodes :: "TreeNode \<Rightarrow> TreeNode list" where
  "tree_nodes (TreeNode i p l v ty cs) = TreeNode i p l v ty cs # concat (map tree_nodes cs)"

definition forest_nodes :: "TreeNode list \<Rightarrow> TreeNode list" where
  "forest_nodes ts = concat (map tree_nodes ts)"

definition forest_size :: "TreeNode list \<Rightarrow> nat" where
  "forest_size ts = sum_list (map tree_size ts)"

lemma forest_size_Nil: "forest_size [] = 0"
  by (simp add: forest_size_def)

lemma tree_size_children: "tree_size t = Suc (forest_size (children t))"
  by (cases t) (simp add: forest_size_def)

lemma forest_size_append: "forest_size (ts @ us) = forest_size ts + forest_size us"
  by (simp add: forest_size_def)

lemma forest_size_Cons: "forest_size (t # ts) = Suc (forest_size (children t)) + forest_size ts"
  using tree_size_children [of t] by (simp add: forest_size_def)

lemma forest_size_concat_children:
  "forest_size (concat (map children ts)) + length ts = forest_size ts"
  by (induction ts) (simp_all add: forest_size_Nil forest_size_append forest_size_Cons)

function queue_order :: "TreeNode list \<Rightarrow> TreeNode list" where
  "queue_order [] = []"
| "queue_order (t # ts) = t # queue_order (ts @ children t)"
  by pat_completeness auto
termination
  by (relation "measure forest_size") (simp_all add: forest_size_append forest_size_Cons)

function level_order :: "TreeNode list \<Rightarrow> TreeNode list" where
  "level_order ts = (if ts = [] then [] else ts @ level_order (concat (map children ts)))"
  by pat_completeness auto
termination
proof (relation "measure forest_size")
  show "wf (measure forest_size)" by simp
next
  fix ts :: "TreeNode list"
  assume "ts \<noteq> []"
  then have "0 < length ts" by simp
  then have "forest_size (concat (map children ts)) < forest_size ts"
    using forest_size_concat_children [of ts] by linarith
  then show "(concat (map children ts), ts) \<in> measure forest_size"
    by simp
qed

declare level_order.simps [simp del]

definition renders :: "Node \<Rightarrow> TreeNode \<Rightarrow> bool" where
  \<comment> \<open>The positioned node carries the id, path, label, value and kind of the tree node.\<close>
  "renders n t =
     (id_n n = id_t t \<and> path_d (data n) = Some (path t) \<and> label_d (data n) = label t
      \<and> value_d (data n) = value_t t \<and> nodeType (data n) = type_t t)"


section \<open>Object keys\<close>

text \<open>
  A JavaScript object holds each key once: \<open>distinct_keys\<close> says so of every object
  inside a value. A key is plain when it contains neither \<open>.\<close> nor \<open>[\<close>.
\<close>

fun distinct_keys :: "json \<Rightarrow> bool"
  and distinct_keys_items :: "json list \<Rightarrow> bool"
  and distinct_keys_members :: "(string \<times> json) list \<Rightarrow> bool"
where
  "distinct_keys (JArr items) = distinct_keys_items items"
| "distinct_keys (JObj members) = (distinct (map fst members) \<and> distinct_keys_members members)"
| "distinct_keys JNull = True"
| "distinct_keys JUndefined = True"
| "distinct_keys (JBool b) = True"
| "distinct_keys (JNum i) = True"
| "distinct_keys (JStr s) = True"
| "distinct_keys_items [] = True"
| "distinct_keys_items (item # rest) = (distinct_keys item \<and> distinct_keys_items rest)"
| "distinct_keys_members [] = True"
| "distinct_keys_members ((key, v) # rest) = (distinct_keys v \<and> distinct_keys_members rest)"

definition plain_key :: "string \<Rightarrow> bool" where
  "plain_key key = (CHR ''.'' \<notin> set key \<and> CHR ''['' \<notin> set key)"

fun plain_keys :: "json \<Rightarrow> bool"
  and plain_keys_items :: "json list \<Rightarrow> bool"
  and plain_keys_members :: "(string \<times> json) list \<Rightarrow> bool"
where
  "plain_keys (JArr items) = plain_keys_items items"
| "plain_keys (JObj members) = plain_keys_members members"
| "plain_keys JNull = True"
| "plain_keys JUndefined = True"
| "plain_keys (JBool b) = True"
| "plain_keys (JNum i) = True"
| "plain_keys (JStr s) = True"
| "plain_keys_items [] = True"
| "plain_keys_items (item # rest) = (plain_keys item \<and> plain_keys_items rest)"
| "plain_keys_members [] = True"
| "plain_keys_members ((key, v) # rest) =
     (plain_key key \<and> plain_keys v \<and> plain_keys_members rest)"

text \<open>The paths of all nodes of a list of trees, and the shape of what follows a prefix.\<close>

definition paths_of :: "TreeNode list \<Rightarrow> string list" where
  "paths_of ts = map path (forest_nodes ts)"

definition tail_ok :: "string \<Rightarrow> bool" where
  "tail_ok r = (r = [] \<or> hd r = CHR ''.'' \<or> hd r = CHR ''['')"

section \<open>Reading a layout\<close>

definition node_ys :: "Node list \<Rightarrow> (string \<times> int) list" where
  "node_ys ns = map (\<lambda>n. (id_n n, y_p (position n))) ns"

definition edge_ends :: "Edge list \<Rightarrow> (string \<times> string) list" where
  "edge_ends es = map (\<lambda>e. (source e, target e)) es"


section \<open>Example documents\<close>

definition example_doc :: json where
  \<comment> \<open>\<open>{"a":1,"b":[2,3]}\<close>\<close>
  "example_doc = JObj [(''a'', JNum 1), (''b'', JArr [JNum 2, JNum 3])]"

definition example_nodes :: "Node list" where
  \<comment> \<open>The positioned nodes of the example, at the default origin.\<close>
  "example_nodes = fst (treeToFlow (jsonToTree example_doc ''$'') 400 50)"

definition dotted_key_doc :: json where
  \<comment> \<open>\<open>{"a.b":1,"a":{"b":2}}\<close>\<close>
  "dotted_key_doc = JObj [(''a.b'', JNum 1), (''a'', JObj [(''b'', JNum 2)])]"

definition staircase_doc :: json where
  \<comment> \<open>\<open>{"a":{"p":{"x":1}},"b":{"q":1},"c":{"r":{"z":1}}}\<close>\<close>
  "staircase_doc =
     JObj [(''a'', JObj [(''p'', JObj [(''x'', JNum 1)])]),
           (''b'', JObj [(''q'', JNum 1)]),
           (''c'', JObj [(''r'', JObj [(''z'', JNum 1)])])]"

definition staircase_item :: QueueItem where
  \<comment> \<open>The node \<open>$.c.r\<close> of the staircase document as a queue item, at the position the
      run from the default origin gives it (the link to its parent left out).\<close>
  "staircase_item =
     \<lparr> treeNode = hd (object_children [(''r'', JObj [(''z'', JNum 1)])] ''$.c''),
       parentNode = None, x_q = 700, y_q = 1250 \<rparr>"

definition staircase_state :: FlowState where
  \<comment> \<open>A state whose level baselines are those of that run at that moment.\<close>
  "staircase_state =
     \<lparr> nodes = [], edges = [], queue = [],
       levelYPositions = [0 \<mapsto> 50, 1 \<mapsto> 650, 2 \<mapsto> 1530, 3 \<mapsto> 1290] \<rparr>"

definition root_item :: QueueItem where
  \<comment> \<open>The item the queue is seeded with, for the example at the default origin.\<close>
  "root_item =
     \<lparr> treeNode = hd (jsonToTree example_doc ''$''), parentNode = None, x_q = 400, y_q = 50 \<rparr>"

definition root_state :: FlowState where
  "root_state = \<lparr> nodes = [], edges = [], queue = [], levelYPositions = [0 \<mapsto> 50] \<rparr>"

section \<open>Facts about trimming\<close>

lemma dropWhile_all_iff:
  "(\<forall>x\<in>set (dropWhile P xs). P x) \<longleftrightarrow> (\<forall>x\<in>set xs. P x)"
proof
  assume all: "\<forall>x\<in>set (dropWhile P xs). P x"
  have "dropWhile P xs = []"
  proof (rule ccontr)
    assume ne: "dropWhile P xs \<noteq> []"
    then have "\<not> P (hd (dropWhile P xs))" by (rule hd_dropWhile)
    moreover have "hd (dropWhile P xs) \<in> set (dropWhile P xs)" using ne by simp
    ultimately show False using all by blast
  qed
  then show "\<forall>x\<in>set xs. P x" by (simp add: dropWhile_eq_Nil_conv)
next
  assume "\<forall>x\<in>set xs. P x"
  then show "\<forall>x\<in>set (dropWhile P xs). P x" by (auto dest: set_dropWhileD)
qed

lemma trim_empty_iff: "trim s = [] \<longleftrightarrow> (\<forall>c\<in>set s. isWhiteSpace c)"
  by (simp add: trim_def dropWhile_all_iff)

section \<open>The path matcher: results\<close>

lemma foldl_search_visit:
  "foldl (search_visit pat) acc ns
     = acc @ map id_n (filter (\<lambda>n. exact_branch pat n \<or> fallback_branch pat n) ns)"
  by (induction ns arbitrary: acc) (simp_all add: search_visit_def)

lemma exact_branch_fallback_branch: "exact_branch pat n \<Longrightarrow> fallback_branch pat n"
  by (simp add: exact_branch_def fallback_branch_def)

text \<open>
  C1, as the code has it. Building and flattening \<open>{"a":1,"b":[2,3]}\<close> gives the five
  nodes \<open>$\<close>, \<open>$.a\<close>, \<open>$.b\<close>, \<open>$.b[0]\<close>, \<open>$.b[1]\<close>, and the matcher run with the query
  \<open>$.a\<close> over them returns the two ids \<open>$\<close> and \<open>$.a\<close>, in this order: the root is
  included, because the query contains the root's path.
\<close>

theorem search_dollar_a_example:
  "map id_n example_nodes = [''$'', ''$.a'', ''$.b'', ''$.b[0]'', ''$.b[1]'']
   \<and> searchNodes example_nodes ''$.a'' = [''$'', ''$.a'']"
  by code_simp

text \<open>
  C1 as stated fails: the result of the query \<open>$.a\<close> over the example's nodes is not the
  one-element list of \<open>$.a\<close>.
\<close>

theorem search_dollar_a_not_exact:
  "searchNodes example_nodes ''$.a'' \<noteq> [''$.a'']"
  by code_simp

text \<open>
  C5. For every node list and every query, the matcher's result is the list of the ids
  of the nodes that satisfy the exact-match branch or the fallback branch, one entry
  per such node and in the order of the input list; nothing is sorted and nothing is
  removed. (For a blank query no node is selected.)
\<close>

theorem searchNodes_one_entry_per_node:
  "searchNodes ns q =
     map id_n (filter (\<lambda>n. trim q \<noteq> [] \<and>
                   (exact_branch (searchPattern_of q) n
                    \<or> fallback_branch (searchPattern_of q) n)) ns)"
  by (simp add: searchNodes_def foldl_search_visit)

text \<open>
  An instance of C5: the node \<open>$.a\<close> of the example satisfies both branches for the query
  \<open>$.a\<close> and is listed once; given twice in the input, it is listed twice.
\<close>

theorem searchNodes_one_entry_per_node_witness:
  "exact_branch ''$.a'' (example_nodes ! 1)
   \<and> fallback_branch ''$.a'' (example_nodes ! 1)
   \<and> searchNodes [example_nodes ! 1] ''$.a'' = [''$.a'']
   \<and> searchNodes [example_nodes ! 1, example_nodes ! 1] ''$.a'' = [''$.a'', ''$.a'']"
proof -
  have e: "exact_branch (searchPattern_of ''$.a'') (example_nodes ! 1)"
    by code_simp
  have p: "searchPattern_of ''$.a'' = ''$.a''" and t: "trim ''$.a'' \<noteq> []"
    by code_simp+
  have i: "id_n (example_nodes ! Suc 0) = ''$.a''"
    by code_simp
  show ?thesis
    using e exact_branch_fallback_branch [OF e]
      searchNodes_one_entry_per_node [of "[example_nodes ! 1]" "''$.a''"]
      searchNodes_one_entry_per_node [of "[example_nodes ! 1, example_nodes ! 1]" "''$.a''"]
    by (simp add: p t i)
qed

text \<open>
  C6. The query \<open>b\<close> is normalised to \<open>$.b\<close>, and the matcher run with it over the
  example's nodes returns \<open>$\<close>, \<open>$.b\<close>, \<open>$.b[0]\<close>, \<open>$.b[1]\<close>: the three ids \<open>$.b\<close>,
  \<open>$.b[0]\<close> and \<open>$.b[1]\<close> are among them.
\<close>

theorem search_b_example:
  "searchPattern_of ''b'' = ''$.b''
   \<and> searchNodes example_nodes ''b'' = [''$'', ''$.b'', ''$.b[0]'', ''$.b[1]'']
   \<and> set [''$.b'', ''$.b[0]'', ''$.b[1]''] \<subseteq> set (searchNodes example_nodes ''b'')"
  by code_simp

text \<open>
  C9. For every node list, a query that is empty or consists of white space only gives
  the empty result: the guard on the trimmed query is the first thing the matcher
  evaluates, and no node is looked at.
\<close>

theorem searchNodes_blank_query:
  "\<forall>c\<in>set searchPath. isWhiteSpace c \<Longrightarrow> searchNodes ns searchPath = []"
  by (simp add: searchNodes_def trim_empty_iff)

theorem searchNodes_blank_query_witness:
  "trim ''  '' = [] \<and> searchNodes example_nodes ''  '' = [] \<and> searchNodes example_nodes [] = []"
proof -
  have b: "\<forall>c\<in>set ''  ''. isWhiteSpace c"
    by (simp add: isWhiteSpace_def)
  have "searchNodes example_nodes ''  '' = []"
    using b by (rule searchNodes_blank_query)
  moreover have "searchNodes example_nodes [] = []"
    by (rule searchNodes_blank_query) simp
  moreover have "trim ''  '' = []"
    using b by (simp only: trim_empty_iff)
  ultimately show ?thesis by simp
qed

text \<open>
  C10. The validity predicate is true exactly for the strings that hold a character
  that is not white space, whatever the path pattern says of them, and false exactly
  for the empty and the white-space-only strings.
\<close>

theorem isValidJsonPath_iff_nonblank:
  "isValidJsonPath p \<longleftrightarrow> (\<exists>c\<in>set p. \<not> isWhiteSpace c)"
  by (auto simp: isValidJsonPath_def trim_empty_iff)

text \<open>
  An instance of C10: a string outside the path grammar is accepted, a blank one is
  refused.
\<close>

theorem isValidJsonPath_iff_nonblank_witness:
  "isValidJsonPath ''user name!'' \<and> \<not> pathPattern_test ''user name!''
   \<and> \<not> isValidJsonPath ''  ''"
  using isValidJsonPath_iff_nonblank [of "''user name!''"]
        isValidJsonPath_iff_nonblank [of "''  ''"]
  by (simp add: pathPattern_test_def isWhiteSpace_def)

section \<open>The tree builder: results\<close>

text \<open>
  C7. Built from \<open>null\<close>, and in the same way from \<open>undefined\<close>, the tree is one node of
  kind primitive with path \<open>$\<close>, no children and the label \<open>root: null\<close>, which contains
  \<open>null\<close>.
\<close>

theorem jsonToTree_null:
  "jsonToTree JNull ''$'' = [TreeNode ''$'' ''$'' ''root: null'' JNull Primitive []]
   \<and> jsonToTree JUndefined ''$'' = jsonToTree JNull ''$''
   \<and> includes_js ''root: null'' ''null''"
  by (simp add: includes_js_def sublist_code)

text \<open>
  C8. Built from the empty array, the tree is one node of kind array without
  children; flattening it, from any origin, gives one positioned node and no edge.
\<close>

theorem empty_array_tree_and_flow:
  "jsonToTree (JArr []) ''$'' = [TreeNode ''$'' ''$'' ''root: [Array]'' (JArr []) Array []]
   \<and> length (fst (treeToFlow (jsonToTree (JArr []) ''$'') startX startY)) = 1
   \<and> snd (treeToFlow (jsonToTree (JArr []) ''$'') startX startY) = []"
  by (simp add: treeToFlow_def flow_loop.simps flow_body_def Let_def)

section \<open>The layout flattener: order and counts\<close>

lemma queue_order_append:
  "queue_order (ts @ us) = ts @ queue_order (us @ concat (map children ts))"
  by (induction ts arbitrary: us) simp_all

lemma queue_order_level_order: "queue_order ts = level_order ts"
proof (induction ts rule: level_order.induct)
  case (1 ts)
  show ?case
  proof (cases "ts = []")
    case True
    then show ?thesis by (simp add: level_order.simps)
  next
    case False
    have "queue_order ts = ts @ queue_order (concat (map children ts))"
      using queue_order_append [of ts "[]"] by simp
    also have "\<dots> = ts @ level_order (concat (map children ts))"
      using "1" False by simp
    also have "\<dots> = level_order ts"
      using False by (simp add: level_order.simps [of ts])
    finally show ?thesis .
  qed
qed

lemma length_queue_order: "length (queue_order ts) = forest_size ts"
  by (induction ts rule: queue_order.induct)
     (simp_all add: forest_size_Nil forest_size_append forest_size_Cons)

lemma mset_tree_nodes: "mset (tree_nodes t) = {#t#} + mset (forest_nodes (children t))"
  by (cases t) (simp add: forest_nodes_def)

lemma forest_nodes_Nil: "forest_nodes [] = []"
  by (simp add: forest_nodes_def)

lemma forest_nodes_append: "forest_nodes (ts @ us) = forest_nodes ts @ forest_nodes us"
  by (simp add: forest_nodes_def)

lemma mset_queue_order: "mset (queue_order ts) = mset (forest_nodes ts)"
proof (induction ts rule: queue_order.induct)
  case 1
  show ?case by (simp add: forest_nodes_def)
next
  case (2 t ts)
  have "forest_nodes (t # ts) = tree_nodes t @ forest_nodes ts"
    by (simp add: forest_nodes_def)
  then show ?case
    using 2 by (simp add: forest_nodes_append mset_tree_nodes)
qed

lemma renders_flowNode_of: "renders (flowNode_of t x y) t"
  by (simp add: renders_def flowNode_of_def)

lemma nodes_flow_body:
  "nodes (flow_body item st) = nodes st @ [flowNode_of (treeNode item) (x_q item) (y_q item)]"
  by (simp add: flow_body_def Let_def split: option.split)

lemma edges_flow_body:
  "edges (flow_body item st) =
     edges st @ (case parentNode item of None \<Rightarrow> [] | Some parent \<Rightarrow> [edge_of parent (treeNode item)])"
  by (simp add: flow_body_def Let_def split: option.split)

lemma treeNode_enqueue_children:
  "map treeNode (enqueue_children cs index flowNode sx cy) = cs"
  by (induction cs arbitrary: index) simp_all

lemma parentNode_enqueue_children:
  "filter (\<lambda>i. parentNode i = None) (enqueue_children cs index flowNode sx cy) = []"
  by (induction cs arbitrary: index) simp_all

lemma flow_loop_nodes:
  "\<exists>ns. nodes (flow_loop st) = nodes st @ ns
        \<and> list_all2 renders ns (queue_order (map treeNode (queue st)))"
proof (induction st rule: flow_loop.induct)
  case (1 st)
  show ?case
  proof (cases "queue st")
    case Nil
    then show ?thesis by (simp add: flow_loop.simps [of st])
  next
    case (Cons item rest)
    let ?st' = "flow_body item (st\<lparr> queue := rest \<rparr>)"
    from "1" [OF Cons] obtain ns where
      ns: "nodes (flow_loop ?st') = nodes ?st' @ ns"
      and r: "list_all2 renders ns (queue_order (map treeNode (queue ?st')))"
      by blast
    have q: "map treeNode (queue ?st') = map treeNode rest @ children (treeNode item)"
      by (simp add: queue_flow_body treeNode_enqueue_children)
    have "nodes (flow_loop st) = nodes st @ (flowNode_of (treeNode item) (x_q item) (y_q item) # ns)"
      using ns Cons by (simp add: flow_loop.simps [of st] nodes_flow_body)
    moreover have "list_all2 renders (flowNode_of (treeNode item) (x_q item) (y_q item) # ns)
                     (queue_order (map treeNode (queue st)))"
      using r q Cons by (simp add: renders_flowNode_of)
    ultimately show ?thesis by blast
  qed
qed

lemma flow_loop_edges:
  "length (edges (flow_loop st)) + length (filter (\<lambda>i. parentNode i = None) (queue st))
     = length (edges st) + queue_size (queue st)"
proof (induction st rule: flow_loop.induct)
  case (1 st)
  show ?case
  proof (cases "queue st")
    case Nil
    then show ?thesis by (simp add: flow_loop.simps [of st] queue_size_def)
  next
    case (Cons item rest)
    let ?st' = "flow_body item (st\<lparr> queue := rest \<rparr>)"
    have ih: "length (edges (flow_loop ?st')) + length (filter (\<lambda>i. parentNode i = None) (queue ?st'))
          = length (edges ?st') + queue_size (queue ?st')"
      using "1" [OF Cons] .
    have o: "filter (\<lambda>i. parentNode i = None) (queue ?st') = filter (\<lambda>i. parentNode i = None) rest"
      by (simp add: queue_flow_body parentNode_enqueue_children)
    have s: "queue_size (queue ?st') = queue_size rest + forest_size (children (treeNode item))"
      by (simp add: queue_flow_body queue_size_append queue_size_enqueue_children forest_size_def)
    have s0: "queue_size (queue st) = Suc (forest_size (children (treeNode item))) + queue_size rest"
      using Cons tree_size_children [of "treeNode item"] by (simp add: queue_size_def)
    have l: "flow_loop st = flow_loop ?st'"
      using Cons by (simp add: flow_loop.simps [of st])
    show ?thesis
    proof (cases "parentNode item")
      case None
      then show ?thesis using ih o s s0 l Cons by (simp add: edges_flow_body)
    next
      case (Some parent)
      then show ?thesis using ih o s s0 l Cons by (simp add: edges_flow_body)
    qed
  qed
qed

lemma treeToFlow_Cons:
  "list_all2 renders (fst (treeToFlow (t # ts) sx sy)) (level_order [t])
   \<and> length (snd (treeToFlow (t # ts) sx sy)) + 1 = tree_size t"
proof -
  let ?st = "\<lparr> nodes = [], edges = [],
               queue = [\<lparr> treeNode = t, parentNode = None, x_q = sx, y_q = sy \<rparr>],
               levelYPositions = Map.empty(0 \<mapsto> sy) \<rparr>"
  have r: "treeToFlow (t # ts) sx sy = (nodes (flow_loop ?st), edges (flow_loop ?st))"
    by (simp add: treeToFlow_def Let_def)
  from flow_loop_nodes [of ?st] have "list_all2 renders (nodes (flow_loop ?st)) (queue_order [t])"
    by auto
  moreover from flow_loop_edges [of ?st] have "length (edges (flow_loop ?st)) + 1 = tree_size t"
    by (simp add: queue_size_def)
  ultimately show ?thesis by (simp add: r queue_order_level_order)
qed

lemma jsonToTree_single: "\<exists>t. jsonToTree v p = [t]"
  by (cases v) simp_all


text \<open>
  C4. For every decoded JSON value and every origin, the positioned nodes are, one
  for one and in this order, the nodes of the built tree listed level by level
  (breadth first); that listing holds every node of the tree exactly once, so there
  are as many positioned nodes as tree nodes; and the number of edges is the number
  of positioned nodes minus one.
\<close>

theorem treeToFlow_level_order:
  "list_all2 renders (fst (treeToFlow (jsonToTree v ''$'') startX startY))
     (level_order (jsonToTree v ''$''))
   \<and> mset (level_order (jsonToTree v ''$'')) = mset (forest_nodes (jsonToTree v ''$''))
   \<and> length (fst (treeToFlow (jsonToTree v ''$'') startX startY))
       = length (forest_nodes (jsonToTree v ''$''))
   \<and> length (snd (treeToFlow (jsonToTree v ''$'') startX startY))
       = length (fst (treeToFlow (jsonToTree v ''$'') startX startY)) - 1"
proof -
  obtain t where t: "jsonToTree v ''$'' = [t]"
    using jsonToTree_single by blast
  have a: "list_all2 renders (fst (treeToFlow [t] startX startY)) (level_order [t])"
    and e: "length (snd (treeToFlow [t] startX startY)) + 1 = tree_size t"
    using treeToFlow_Cons [of t "[]" startX startY] by simp_all
  have m: "mset (level_order [t]) = mset (forest_nodes [t])"
    using mset_queue_order [of "[t]"] by (simp add: queue_order_level_order)
  have n: "length (fst (treeToFlow [t] startX startY)) = length (level_order [t])"
    using a by (rule list_all2_lengthD)
  have s: "length (level_order [t]) = tree_size t"
    using length_queue_order [of "[t]"] by (simp add: queue_order_level_order forest_size_def)
  have f: "length (forest_nodes [t]) = length (level_order [t])"
    using m by (metis size_mset)
  show ?thesis
    using a e m n s f by (simp add: t)
qed


section \<open>The layout flattener: the children's row\<close>

lemma y_enqueue_children:
  "\<forall>q\<in>set (enqueue_children cs index flowNode sx cy). y_q q = cy"
  by (induction cs arbitrary: index) simp_all

lemma levelY_flow_body:
  "children (treeNode item) \<noteq> [] \<Longrightarrow>
   levelYPositions (flow_body item st) =
     (levelYPositions st)(level_of (path (treeNode item)) + 1 \<mapsto>
        childY_of (levelYPositions st) (level_of (path (treeNode item))) (y_q item) + 280)"
  by (simp add: flow_body_def Let_def split: option.split)


text \<open>
  C2, as the code has it. When a dequeued node has children, all of them are put on
  the queue with one common y-coordinate. When no baseline is stored for the
  children's level, that coordinate is the parent's y plus 320; when a baseline other
  than 0 is stored, it is that baseline, whatever the parent's y: it is not the
  maximum of the two. The baseline of that level is then set to the common coordinate
  plus 280.
\<close>

theorem flow_body_children_y:
  assumes "children (treeNode item) \<noteq> []"
    and "level = level_of (path (treeNode item))"
  shows "\<exists>childY.
           (\<exists>new. queue (flow_body item st) = queue st @ new
              \<and> map treeNode new = children (treeNode item)
              \<and> (\<forall>q\<in>set new. y_q q = childY))
           \<and> levelYPositions (flow_body item st) (level + 1) = Some (childY + 280)
           \<and> (levelYPositions st (level + 1) = None \<longrightarrow> childY = y_q item + 320)
           \<and> (\<forall>v. levelYPositions st (level + 1) = Some v \<and> v \<noteq> 0 \<longrightarrow> childY = v)"
proof -
  define cy where "cy = childY_of (levelYPositions st) level (y_q item)"
  have q: "\<exists>new. queue (flow_body item st) = queue st @ new
           \<and> map treeNode new = children (treeNode item)
           \<and> (\<forall>q\<in>set new. y_q q = cy)"
    using assms(2) y_enqueue_children treeNode_enqueue_children
    by (simp add: queue_flow_body cy_def)
  have l: "levelYPositions (flow_body item st) (level + 1) = Some (cy + 280)"
    using assms by (simp add: levelY_flow_body cy_def)
  have n: "levelYPositions st (level + 1) = None \<longrightarrow> cy = y_q item + 320"
    by (simp add: childY_of_def cy_def)
  have v: "\<forall>v. levelYPositions st (level + 1) = Some v \<and> v \<noteq> 0 \<longrightarrow> cy = v"
    by (simp add: childY_of_def cy_def)
  from q l n v show ?thesis
    by (intro exI [of _ cy] conjI)
qed


text \<open>
  Two instances of C2 as amended. The root of the example at y = 50, with no baseline
  stored for level 1: its two children get y = 50 + 320 and the baseline becomes 650.
  The node \<open>$.c.r\<close> of the staircase document at y = 1250, with the baseline 1290
  stored for level 3: its child gets y = 1290 and the baseline becomes 1570.
\<close>

theorem flow_body_children_y_witness:
  "map y_q (queue (flow_body root_item root_state)) = [370, 370]
   \<and> levelYPositions (flow_body root_item root_state) 1 = Some 650
   \<and> map y_q (queue (flow_body staircase_item staircase_state)) = [1290]
   \<and> levelYPositions (flow_body staircase_item staircase_state) 3 = Some 1570"
proof -
  have r1: "children (treeNode root_item) \<noteq> []"
    and r2: "(0::nat) = level_of (path (treeNode root_item))"
    and r3: "levelYPositions root_state (0 + 1) = None"
    and r4: "y_q root_item = 50"
    and r5: "map y_q (queue (flow_body root_item root_state)) = [370, 370]"
    by code_simp+
  from flow_body_children_y [OF r1 r2, of root_state] obtain cy where
    a: "(\<exists>new. queue (flow_body root_item root_state) = queue root_state @ new
              \<and> map treeNode new = children (treeNode root_item)
              \<and> (\<forall>q\<in>set new. y_q q = cy))
        \<and> levelYPositions (flow_body root_item root_state) (0 + 1) = Some (cy + 280)
        \<and> (levelYPositions root_state (0 + 1) = None \<longrightarrow> cy = y_q root_item + 320)
        \<and> (\<forall>v. levelYPositions root_state (0 + 1) = Some v \<and> v \<noteq> 0 \<longrightarrow> cy = v)"
    by (rule exE)
  from a have l: "levelYPositions (flow_body root_item root_state) (0 + 1) = Some (cy + 280)"
    by (elim conjE)
  from a have c: "levelYPositions root_state (0 + 1) = None \<longrightarrow> cy = y_q root_item + 320"
    by (elim conjE)
  from c r3 have "cy = y_q root_item + 320" by (rule mp)
  with r4 have "cy = 370" by simp
  with l have l1: "levelYPositions (flow_body root_item root_state) 1 = Some 650"
    by simp
  have s1: "children (treeNode staircase_item) \<noteq> []"
    and s2: "(2::nat) = level_of (path (treeNode staircase_item))"
    and s3: "levelYPositions staircase_state (2 + 1) = Some 1290"
    and s5: "map y_q (queue (flow_body staircase_item staircase_state)) = [1290]"
    by code_simp+
  from flow_body_children_y [OF s1 s2, of staircase_state] obtain cy' where
    a': "(\<exists>new. queue (flow_body staircase_item staircase_state) = queue staircase_state @ new
              \<and> map treeNode new = children (treeNode staircase_item)
              \<and> (\<forall>q\<in>set new. y_q q = cy'))
        \<and> levelYPositions (flow_body staircase_item staircase_state) (2 + 1) = Some (cy' + 280)
        \<and> (levelYPositions staircase_state (2 + 1) = None \<longrightarrow> cy' = y_q staircase_item + 320)
        \<and> (\<forall>v. levelYPositions staircase_state (2 + 1) = Some v \<and> v \<noteq> 0 \<longrightarrow> cy' = v)"
    by (rule exE)
  from a' have l': "levelYPositions (flow_body staircase_item staircase_state) (2 + 1)
                      = Some (cy' + 280)"
    by (elim conjE)
  from a' have c': "\<forall>v. levelYPositions staircase_state (2 + 1) = Some v \<and> v \<noteq> 0 \<longrightarrow> cy' = v"
    by (elim conjE)
  from c' have "levelYPositions staircase_state (2 + 1) = Some 1290 \<and> (1290::int) \<noteq> 0
                  \<longrightarrow> cy' = 1290"
    by (rule spec)
  with s3 have "cy' = 1290" by simp
  with l' have l3: "levelYPositions (flow_body staircase_item staircase_state) 3 = Some 1570"
    by simp
  from r5 l1 s5 l3 show ?thesis by (intro conjI)
qed

text \<open>
  C2 as stated fails. In the layout of the staircase document from the default origin,
  the node \<open>$.c.r\<close> is at y = 1250 and its child \<open>$.c.r.z\<close> at y = 1290, the baseline
  stored for the child's level: the child is not at the parent's y plus the gap of
  320 or below it, and its y is not a maximum with that sum.
\<close>

theorem staircase_child_within_gap:
  "node_ys (fst (treeToFlow (jsonToTree staircase_doc ''$'') 400 50)) =
     [(''$'', 50), (''$.a'', 370), (''$.b'', 370), (''$.c'', 370),
      (''$.a.p'', 690), (''$.b.q'', 970), (''$.c.r'', 1250),
      (''$.a.p.x'', 1010), (''$.c.r.z'', 1290)]
   \<and> edge_ends (snd (treeToFlow (jsonToTree staircase_doc ''$'') 400 50)) =
     [(''$'', ''$.a''), (''$'', ''$.b''), (''$'', ''$.c''),
      (''$.a'', ''$.a.p''), (''$.b'', ''$.b.q''), (''$.c'', ''$.c.r''),
      (''$.a.p'', ''$.a.p.x''), (''$.c.r'', ''$.c.r.z'')]
   \<and> \<not> (the (map_of (node_ys (fst (treeToFlow (jsonToTree staircase_doc ''$'') 400 50))) ''$.c.r'')
           + 320
         \<le> the (map_of (node_ys (fst (treeToFlow (jsonToTree staircase_doc ''$'') 400 50)))
                  ''$.c.r.z''))"
  by code_simp

section \<open>The tree builder: identifiers and paths\<close>

lemma paths_of_Nil: "paths_of [] = []"
  by (simp add: paths_of_def forest_nodes_def)

lemma paths_of_append: "paths_of (ts @ us) = paths_of ts @ paths_of us"
  by (simp add: paths_of_def forest_nodes_def)

lemma paths_of_single: "paths_of [TreeNode i p l v ty cs] = p # paths_of cs"
  by (simp add: paths_of_def forest_nodes_def)

lemma child_path:
  "(if parentPath = ''$'' then ''$.'' @ key else parentPath @ ''.'' @ key) = parentPath @ ''.'' @ key"
  by simp

lemma object_children_Cons:
  "object_children ((key, v) # rest) parentPath =
     jsonToTree v (parentPath @ ''.'' @ key) @ object_children rest parentPath"
  by simp

subsection \<open>Decimal numerals\<close>

lemma digit_char_inj: "a < 10 \<Longrightarrow> b < 10 \<Longrightarrow> digit_char a = digit_char b \<Longrightarrow> a = b"
proof -
  assume a: "a < 10" and b: "b < 10" and e: "digit_char a = digit_char b"
  have d: "distinct ''0123456789''" by simp
  have "a < length ''0123456789''" "b < length ''0123456789''" using a b by simp_all
  with d e show "a = b"
    unfolding digit_char_def by (simp only: nth_eq_iff_index_eq)
qed

lemma digit_char_mem: "d < 10 \<Longrightarrow> digit_char d \<in> set ''0123456789''"
  unfolding digit_char_def by (rule nth_mem) simp

lemma decimal_digits_small: "n < 10 \<Longrightarrow> decimal_digits n = [digit_char n]"
  by (simp add: decimal_digits.simps [of n])

lemma decimal_digits_large:
  "\<not> n < 10 \<Longrightarrow> decimal_digits n = decimal_digits (n div 10) @ [digit_char (n mod 10)]"
  by (simp add: decimal_digits.simps [of n])

lemma decimal_digits_nonempty: "decimal_digits n \<noteq> []"
  by (cases "n < 10") (simp_all add: decimal_digits_small decimal_digits_large)

lemma decimal_digits_set: "set (decimal_digits n) \<subseteq> set ''0123456789''"
proof (induction n rule: decimal_digits.induct)
  case (1 n)
  show ?case
  proof (cases "n < 10")
    case True
    then show ?thesis using digit_char_mem [of n] by (simp add: decimal_digits_small)
  next
    case False
    have "n mod 10 < 10" by simp
    then have "digit_char (n mod 10) \<in> set ''0123456789''" by (rule digit_char_mem)
    then show ?thesis using "1" False by (simp add: decimal_digits_large)
  qed
qed

lemma decimal_digits_no_bracket: "CHR '']'' \<notin> set (decimal_digits n)"
  using decimal_digits_set [of n] by auto

lemma decimal_digits_inj: "decimal_digits n = decimal_digits m \<Longrightarrow> n = m"
proof (induction n arbitrary: m rule: decimal_digits.induct)
  case (1 n)
  show ?case
  proof (cases "n < 10")
    case n: True
    show ?thesis
    proof (cases "m < 10")
      case True
      with n "1.prems" have "digit_char n = digit_char m"
        by (simp add: decimal_digits_small)
      with n True show ?thesis by (rule digit_char_inj)
    next
      case False
      with n "1.prems" have "decimal_digits (m div 10) = []"
        by (simp add: decimal_digits_small decimal_digits_large)
      then show ?thesis by (simp add: decimal_digits_nonempty)
    qed
  next
    case n: False
    show ?thesis
    proof (cases "m < 10")
      case True
      with n "1.prems" have "decimal_digits (n div 10) = []"
        by (simp add: decimal_digits_small decimal_digits_large)
      then show ?thesis by (simp add: decimal_digits_nonempty)
    next
      case False
      with n "1.prems" have e: "decimal_digits (n div 10) = decimal_digits (m div 10)"
        and d: "digit_char (n mod 10) = digit_char (m mod 10)"
        by (simp_all add: decimal_digits_large)
      have "n div 10 = m div 10" using "1.IH" [OF n e] .
      moreover have "n mod 10 = m mod 10"
        using d by (intro digit_char_inj) simp_all
      ultimately show ?thesis by (metis div_mult_mod_eq)
    qed
  qed
qed

subsection \<open>Cutting a path at a delimiter\<close>

lemma split_at_bracket:
  assumes "a @ CHR '']'' # r = b @ CHR '']'' # r'"
    and "CHR '']'' \<notin> set a" and "CHR '']'' \<notin> set b"
  shows "a = b"
proof -
  have a: "\<And>c. c \<in> set a \<Longrightarrow> c \<noteq> CHR '']''" and b: "\<And>c. c \<in> set b \<Longrightarrow> c \<noteq> CHR '']''"
    using assms(2,3) by auto
  have "takeWhile (\<lambda>c. c \<noteq> CHR '']'') (a @ CHR '']'' # r) = a"
    by (simp add: takeWhile_append2 [of a, OF a])
  moreover have "takeWhile (\<lambda>c. c \<noteq> CHR '']'') (b @ CHR '']'' # r') = b"
    by (simp add: takeWhile_append2 [of b, OF b])
  ultimately show ?thesis using assms(1) by simp
qed

lemma takeWhile_plain_key:
  assumes "plain_key k" and "tail_ok r"
  shows "takeWhile (\<lambda>c. c \<noteq> CHR ''.'' \<and> c \<noteq> CHR ''['') (k @ r) = k"
proof -
  have "takeWhile (\<lambda>c. c \<noteq> CHR ''.'' \<and> c \<noteq> CHR ''['') r = []"
    using assms(2) by (cases r) (auto simp: tail_ok_def)
  moreover have "\<And>c. c \<in> set k \<Longrightarrow> c \<noteq> CHR ''.'' \<and> c \<noteq> CHR ''[''"
    using assms(1) by (auto simp: plain_key_def)
  ultimately show ?thesis by (simp add: takeWhile_append2)
qed

lemma split_at_key:
  assumes "k @ r = k' @ r'" and "plain_key k" and "plain_key k'" and "tail_ok r" and "tail_ok r'"
  shows "k = k'"
  using takeWhile_plain_key [OF assms(2) assms(4)] takeWhile_plain_key [OF assms(3) assms(5)]
    assms(1) by simp

subsection \<open>The shape of the paths below a node\<close>

lemma path_shape:
  "\<forall>q\<in>set (paths_of (jsonToTree v p)). \<exists>r. q = p @ r \<and> tail_ok r"
  "\<forall>q\<in>set (paths_of (array_children items i p)).
      \<exists>j r. i \<le> j \<and> q = p @ ''['' @ decimal_digits j @ '']'' @ r \<and> tail_ok r"
  "\<forall>q\<in>set (paths_of (object_children members p)).
      \<exists>k r. k \<in> fst ` set members \<and> q = p @ ''.'' @ k @ r \<and> tail_ok r"
proof (induction v p and items i p and members p
       rule: jsonToTree_array_children_object_children.induct)
  case (6 items parentPath)
  show ?case
  proof
    fix q assume "q \<in> set (paths_of (jsonToTree (JArr items) parentPath))"
    then consider "q = parentPath" | "q \<in> set (paths_of (array_children items 0 parentPath))"
      by (auto simp: paths_of_single)
    then show "\<exists>r. q = parentPath @ r \<and> tail_ok r"
    proof cases
      case 1
      then show ?thesis by (simp add: tail_ok_def)
    next
      case 2
      with 6 obtain j r where "q = parentPath @ ''['' @ decimal_digits j @ '']'' @ r" by blast
      then have "q = parentPath @ (''['' @ decimal_digits j @ '']'' @ r)
                 \<and> tail_ok (''['' @ decimal_digits j @ '']'' @ r)"
        by (simp add: tail_ok_def)
      then show ?thesis by blast
    qed
  qed
next
  case (7 members parentPath)
  show ?case
  proof
    fix q assume "q \<in> set (paths_of (jsonToTree (JObj members) parentPath))"
    then consider "q = parentPath" | "q \<in> set (paths_of (object_children members parentPath))"
      by (auto simp: paths_of_single)
    then show "\<exists>r. q = parentPath @ r \<and> tail_ok r"
    proof cases
      case 1
      then show ?thesis by (simp add: tail_ok_def)
    next
      case 2
      with 7 obtain k r where "q = parentPath @ ''.'' @ k @ r" by blast
      then have "q = parentPath @ (''.'' @ k @ r) \<and> tail_ok (''.'' @ k @ r)"
        by (simp add: tail_ok_def)
      then show ?thesis by blast
    qed
  qed
next
  case (9 item rest index parentPath)
  show ?case
  proof
    fix q assume "q \<in> set (paths_of (array_children (item # rest) index parentPath))"
    then consider
        "q \<in> set (paths_of (jsonToTree item (parentPath @ ''['' @ decimal_digits index @ '']'')))"
      | "q \<in> set (paths_of (array_children rest (Suc index) parentPath))"
      by (auto simp: paths_of_append)
    then show "\<exists>j r. index \<le> j \<and> q = parentPath @ ''['' @ decimal_digits j @ '']'' @ r \<and> tail_ok r"
    proof cases
      case 1
      with 9(1) obtain r where "q = (parentPath @ ''['' @ decimal_digits index @ '']'') @ r"
        and "tail_ok r" by blast
      then have "index \<le> index \<and> q = parentPath @ ''['' @ decimal_digits index @ '']'' @ r \<and> tail_ok r"
        by simp
      then show ?thesis by blast
    next
      case 2
      with 9(2) obtain j r where "Suc index \<le> j"
        and "q = parentPath @ ''['' @ decimal_digits j @ '']'' @ r" and "tail_ok r" by blast
      then have "index \<le> j \<and> q = parentPath @ ''['' @ decimal_digits j @ '']'' @ r \<and> tail_ok r"
        by simp
      then show ?thesis by blast
    qed
  qed
next
  case (11 key v rest parentPath)
  show ?case
  proof
    fix q assume "q \<in> set (paths_of (object_children ((key, v) # rest) parentPath))"
    then consider
        "q \<in> set (paths_of (jsonToTree v (parentPath @ ''.'' @ key)))"
      | "q \<in> set (paths_of (object_children rest parentPath))"
      unfolding object_children_Cons paths_of_append by auto
    then show "\<exists>k r. k \<in> fst ` set ((key, v) # rest) \<and> q = parentPath @ ''.'' @ k @ r \<and> tail_ok r"
    proof cases
      case 1
      with 11(1) obtain r where "q = (parentPath @ ''.'' @ key) @ r" and "tail_ok r"
        unfolding child_path by blast
      then have "key \<in> fst ` set ((key, v) # rest) \<and> q = parentPath @ ''.'' @ key @ r \<and> tail_ok r"
        by simp
      then show ?thesis by blast
    next
      case 2
      with 11(2) obtain k r where "k \<in> fst ` set rest"
        and "q = parentPath @ ''.'' @ k @ r" and "tail_ok r" by blast
      then have "k \<in> fst ` set ((key, v) # rest) \<and> q = parentPath @ ''.'' @ k @ r \<and> tail_ok r"
        by auto
      then show ?thesis by blast
    qed
  qed
qed (simp_all add: paths_of_single paths_of_Nil tail_ok_def)

lemma plain_keys_members_key:
  "plain_keys_members members \<Longrightarrow> k \<in> fst ` set members \<Longrightarrow> plain_key k"
  by (induction members) force+

lemma forest_nodes_single:
  "forest_nodes [TreeNode i p l v ty cs] = TreeNode i p l v ty cs # forest_nodes cs"
  by (simp add: forest_nodes_def)

lemma id_is_path:
  "\<forall>n\<in>set (forest_nodes (jsonToTree v p)). id_t n = path n"
  "\<forall>n\<in>set (forest_nodes (array_children items i p)). id_t n = path n"
  "\<forall>n\<in>set (forest_nodes (object_children members p)). id_t n = path n"
  by (induction v p and items i p and members p
      rule: jsonToTree_array_children_object_children.induct)
     (simp_all add: forest_nodes_Nil forest_nodes_append forest_nodes_single del: append.simps,
      auto)

lemma paths_distinct:
  "distinct_keys v \<Longrightarrow> plain_keys v \<Longrightarrow> distinct (paths_of (jsonToTree v p))"
  "distinct_keys_items items \<Longrightarrow> plain_keys_items items
     \<Longrightarrow> distinct (paths_of (array_children items i p))"
  "distinct (map fst members) \<Longrightarrow> distinct_keys_members members \<Longrightarrow> plain_keys_members members
     \<Longrightarrow> distinct (paths_of (object_children members p))"
proof (induction v p and items i p and members p
       rule: jsonToTree_array_children_object_children.induct)
  case (6 items parentPath)
  have d: "distinct (paths_of (array_children items 0 parentPath))"
    using 6 by simp
  have "parentPath \<notin> set (paths_of (array_children items 0 parentPath))"
  proof
    assume "parentPath \<in> set (paths_of (array_children items 0 parentPath))"
    with path_shape(2) obtain j r
      where "parentPath = parentPath @ ''['' @ decimal_digits j @ '']'' @ r" by blast
    then show False by simp
  qed
  with d show ?case by (simp add: paths_of_single)
next
  case (7 members parentPath)
  have d: "distinct (paths_of (object_children members parentPath))"
    using 7 by simp
  have "parentPath \<notin> set (paths_of (object_children members parentPath))"
  proof
    assume "parentPath \<in> set (paths_of (object_children members parentPath))"
    with path_shape(3) obtain k r
      where "parentPath = parentPath @ ''.'' @ k @ r" by blast
    then show False by simp
  qed
  with d show ?case by (simp add: paths_of_single)
next
  case (9 item rest index parentPath)
  let ?A = "paths_of (jsonToTree item (parentPath @ ''['' @ decimal_digits index @ '']''))"
  let ?B = "paths_of (array_children rest (Suc index) parentPath)"
  have a: "distinct ?A" and b: "distinct ?B"
    using 9 by simp_all
  have "set ?A \<inter> set ?B = {}"
  proof (rule ccontr)
    assume "set ?A \<inter> set ?B \<noteq> {}"
    then obtain q where qa: "q \<in> set ?A" and qb: "q \<in> set ?B" by blast
    from qa path_shape(1) obtain r
      where 1: "q = (parentPath @ ''['' @ decimal_digits index @ '']'') @ r" by blast
    from qb path_shape(2) obtain j r'
      where j: "Suc index \<le> j" and 2: "q = parentPath @ ''['' @ decimal_digits j @ '']'' @ r'"
      by blast
    from 1 2 have "decimal_digits index @ CHR '']'' # r = decimal_digits j @ CHR '']'' # r'"
      by simp
    then have "decimal_digits index = decimal_digits j"
      by (rule split_at_bracket) (rule decimal_digits_no_bracket)+
    then have "index = j" by (rule decimal_digits_inj)
    with j show False by simp
  qed
  with a b show ?case by (simp add: paths_of_append)
next
  case (11 key v rest parentPath)
  let ?A = "paths_of (jsonToTree v (parentPath @ ''.'' @ key))"
  let ?B = "paths_of (object_children rest parentPath)"
  have pk: "plain_key key" and pr: "plain_keys_members rest"
    and fresh: "key \<notin> fst ` set rest"
    using "11.prems" by simp_all
  have a: "distinct ?A"
    using "11.IH"(1) "11.prems" unfolding child_path by simp
  have b: "distinct ?B"
    using "11.IH"(2) "11.prems" by simp
  have "set ?A \<inter> set ?B = {}"
  proof (rule ccontr)
    assume "set ?A \<inter> set ?B \<noteq> {}"
    then obtain q where qa: "q \<in> set ?A" and qb: "q \<in> set ?B" by blast
    from qa path_shape(1) obtain r
      where 1: "q = (parentPath @ ''.'' @ key) @ r" and r: "tail_ok r" by blast
    from qb path_shape(3) obtain k r'
      where k: "k \<in> fst ` set rest" and 2: "q = parentPath @ ''.'' @ k @ r'" and r': "tail_ok r'"
      by blast
    have "plain_key k" using pr k by (rule plain_keys_members_key)
    moreover from 1 2 have "key @ r = k @ r'" by simp
    ultimately have "key = k" using pk r r' by (intro split_at_key [of key r k r'])
    with k fresh show False by simp
  qed
  with a b show ?case
    unfolding object_children_Cons by (simp add: paths_of_append)
qed (simp_all add: paths_of_single paths_of_Nil)


text \<open>
  C3, as the code has it. In every tree the builder makes from a decoded JSON value,
  each node's id is its path; and when no object key of the value contains \<open>.\<close> or
  \<open>[\<close> (each object holding each key once), no two nodes of the tree have the same
  path. Keys that contain \<open>]\<close> do no harm.
\<close>

theorem jsonToTree_id_path_unique:
  "(\<forall>n\<in>set (forest_nodes (jsonToTree v ''$'')). id_t n = path n)
   \<and> (distinct_keys v \<and> plain_keys v \<longrightarrow> distinct (paths_of (jsonToTree v ''$'')))"
  using id_is_path(1) [of v "''$''"] paths_distinct(1) [of v "''$''"] by blast

theorem jsonToTree_id_path_unique_witness:
  "distinct_keys example_doc \<and> plain_keys example_doc
   \<and> paths_of (jsonToTree example_doc ''$'') = [''$'', ''$.a'', ''$.b'', ''$.b[0]'', ''$.b[1]'']
   \<and> map id_t (forest_nodes (jsonToTree example_doc ''$'')) = paths_of (jsonToTree example_doc ''$'')
   \<and> distinct (paths_of (jsonToTree example_doc ''$''))"
proof -
  have h: "distinct_keys example_doc \<and> plain_keys example_doc"
    by code_simp
  have "distinct (paths_of (jsonToTree example_doc ''$''))"
    using jsonToTree_id_path_unique [of example_doc] h by blast
  moreover have "paths_of (jsonToTree example_doc ''$'')
                   = [''$'', ''$.a'', ''$.b'', ''$.b[0]'', ''$.b[1]'']"
    by code_simp
  moreover have "map id_t (forest_nodes (jsonToTree example_doc ''$''))
                   = paths_of (jsonToTree example_doc ''$'')"
    using jsonToTree_id_path_unique [of example_doc] by (simp add: paths_of_def)
  ultimately show ?thesis using h by blast
qed

text \<open>
  C3 as stated fails: in the tree of \<open>{"a.b":1,"a":{"b":2}}\<close>, an object that holds
  each key once, the path \<open>$.a.b\<close> belongs to two nodes.
\<close>

theorem dotted_key_paths_collide:
  "distinct_keys dotted_key_doc
   \<and> paths_of (jsonToTree dotted_key_doc ''$'') = [''$'', ''$.a.b'', ''$.a'', ''$.a.b'']
   \<and> \<not> distinct (paths_of (jsonToTree dotted_key_doc ''$''))"
  by code_simp

end
